theory Spec2Isabelle
  imports Main "HOL-Library.Sublist" "HOL-Library.AList"
begin

section \<open>Data model of generate_materials_template.py\<close>

text \<open>
  One element of the JSON array read by the script. Only the fields the script reads are
  kept: \<open>template_row\<close> is \<^verbatim>\<open>elem["template"]["row"]\<close>, \<open>template_column\<close> is
  \<^verbatim>\<open>str(elem["template"]["column"])\<close>, \<open>color_key\<close> is \<^verbatim>\<open>elem["color_key"]\<close>.
  The numbers read by the value sub-row (mass, density, strength, stiffness) are floating
  point and stay opaque in \<open>numbers\<close>.
\<close>

record 'p material =
  template_row :: string
  template_column :: string
  color_key :: string
  numbers :: 'p

text \<open>
  The tuple \<^verbatim>\<open>(row_name, col_order, col_name, elem)\<close> appended to \<^verbatim>\<open>d[row_order]\<close>.
\<close>

record 'p col_value =
  row_name :: string
  col_order :: int
  col_name :: string
  elem :: "'p material"

text \<open>
  The entries of \<^verbatim>\<open>output_col_values\<close>: a \<^verbatim>\<open>str\<close> (the row name, a label), the
  input tuple itself (a data cell), or \<^verbatim>\<open>None\<close> (a filler).
\<close>

datatype 'p cell = Label string | Data "'p col_value" | Blank

text \<open>
  The ways a run can stop early: \<^verbatim>\<open>sys.exit(-1)\<close> after the usage message, a failing
  \<^verbatim>\<open>open\<close>, a failing \<^verbatim>\<open>assert\<close>, \<^verbatim>\<open>int()\<close> on a string that is no integer, and
  any exception of \<^verbatim>\<open>json.loads\<close> or of reading a field that an element lacks. The
  script is taken as run without \<^verbatim>\<open>-O\<close>, so that its \<^verbatim>\<open>assert\<close> statements are live.
\<close>

datatype error = SystemExit | OSError | AssertionError | ValueError | LoadError

section \<open>Stripping comments (lines 14 to 18)\<close>

text \<open>
  \<^verbatim>\<open>comment_re = re.compile(r"^(.*?)(//.+)?$")\<close> and \<^verbatim>\<open>comment_re.sub(r"\1", line)\<close>,
  with no flags: \<open>.\<close> matches any character but the newline, \<open>^\<close> matches at the start of
  the string only, \<open>$\<close> matches at the end of the string and just before a newline that
  ends the string.
\<close>

definition newline :: char where
  "newline = CHR 0x0A"

text \<open>Whether \<open>$\<close> matches at a position, \<open>rest\<close> being the text from there on.\<close>

definition at_dollar :: "string \<Rightarrow> bool" where
  "at_dollar rest = (rest = [] \<or> rest = [newline])"

text \<open>
  The group \<open>(//.+)\<close> followed by \<open>$\<close>, tried at a position: two slashes, then the
  greedy \<open>.+\<close> takes every character up to the next newline and needs at least one; a
  shorter match of \<open>.+\<close> ends before a character that is not a newline, where \<open>$\<close> fails.
  The result is the text left after the match.
\<close>

definition match_comment :: "string \<Rightarrow> string option" where
  "match_comment rest =
     (if take 2 rest = ''//'' then
        let body = takeWhile (\<lambda>c. c \<noteq> newline) (drop 2 rest);
            after = dropWhile (\<lambda>c. c \<noteq> newline) (drop 2 rest)
        in if body \<noteq> [] \<and> at_dollar after then Some after else None
      else None)"

text \<open>
  The whole pattern from the start of the line. The lazy \<open>(.*?)\<close> grows one character at
  a time; at each length the optional group is tried first, then the empty alternative with
  \<open>$\<close>. The result is the line with the match replaced by group 1, or \<open>None\<close> when
  nothing matches.
\<close>

fun comment_match :: "string \<Rightarrow> string option" where
  "comment_match [] = Some []"
| "comment_match (c # t) =
     (case match_comment (c # t) of
        Some after \<Rightarrow> Some after
      | None \<Rightarrow>
          if at_dollar (c # t) then Some (c # t)
          else if c = newline then None
          else map_option ((#) c) (comment_match t))"

definition comment_sub :: "string \<Rightarrow> string" where
  "comment_sub line = (case comment_match line of Some replaced \<Rightarrow> replaced | None \<Rightarrow> line)"

section \<open>Preparing the data (lines 29 to 57)\<close>

text \<open>\<^verbatim>\<open>s.split(sep)\<close> for a separator of one character.\<close>

fun split_on :: "char \<Rightarrow> string \<Rightarrow> string list" where
  "split_on sep [] = [[]]"
| "split_on sep (c # cs) =
     (if c = sep then [] # split_on sep cs
      else (case split_on sep cs of p # ps \<Rightarrow> (c # p) # ps | [] \<Rightarrow> [[c]]))"

text \<open>
  The body of the \<^verbatim>\<open>for elem in data\<close> loop up to the tuple it builds, with the row
  order it files the tuple under. \<open>py_int\<close> stands for Python's \<^verbatim>\<open>int()\<close> on a string,
  \<open>None\<close> being its \<^verbatim>\<open>ValueError\<close>.
\<close>

definition parse_elem ::
    "(string \<Rightarrow> int option) \<Rightarrow> 'p material \<Rightarrow> error + (int \<times> 'p col_value)" where
  "parse_elem py_int e =
     (let row_parts = split_on CHR ''|'' (template_row e) in
      if length row_parts \<noteq> 2 then Inl AssertionError
      else case py_int (row_parts ! 0) of
        None \<Rightarrow> Inl ValueError
      | Some row_order \<Rightarrow>
          let col_parts = split_on CHR ''|'' (template_column e) in
          if length col_parts = 2 then
            (case py_int (col_parts ! 0) of
               None \<Rightarrow> Inl ValueError
             | Some c_order \<Rightarrow>
                 Inr (row_order, \<lparr>row_name = row_parts ! 1, col_order = c_order,
                                  col_name = col_parts ! 1, elem = e\<rparr>))
          else if length col_parts \<noteq> 1 then Inl AssertionError
          else
            (case py_int (col_parts ! 0) of
               None \<Rightarrow> Inl ValueError
             | Some c_order \<Rightarrow>
                 Inr (row_order, \<lparr>row_name = row_parts ! 1, col_order = c_order,
                                  col_name = [], elem = e\<rparr>)))"

text \<open>
  The dictionary \<^verbatim>\<open>d\<close> as an association list in insertion order;
  \<^verbatim>\<open>d.setdefault(row_order, []).append(v)\<close>.
\<close>

definition setdefault_append :: "(int \<times> 'a list) list \<Rightarrow> int \<Rightarrow> 'a \<Rightarrow> (int \<times> 'a list) list" where
  "setdefault_append d k v =
     AList.update k ((case map_of d k of None \<Rightarrow> [] | Some d_vals \<Rightarrow> d_vals) @ [v]) d"

fun prepare_data ::
    "(string \<Rightarrow> int option) \<Rightarrow> (int \<times> 'p col_value list) list \<Rightarrow> 'p material list
       \<Rightarrow> error + (int \<times> 'p col_value list) list" where
  "prepare_data py_int d [] = Inr d"
| "prepare_data py_int d (e # data) =
     (case parse_elem py_int e of
        Inl err \<Rightarrow> Inl err
      | Inr (row_order, v) \<Rightarrow> prepare_data py_int (setdefault_append d row_order v) data)"

text \<open>\<^verbatim>\<open>d[k] = sorted(v, key=itemgetter(1))\<close> for every key; both sorts are stable.\<close>

definition sort_cols :: "(int \<times> 'p col_value list) list \<Rightarrow> (int \<times> 'p col_value list) list" where
  "sort_cols d = map (\<lambda>(k, v). (k, sort_key col_order v)) d"

section \<open>The per-row packing loop (lines 80 to 97)\<close>

record 'p loop_state =
  ci :: nat
  labels_count :: int
  cur_row_name :: "string option"
  output_col_values :: "'p cell list"

definition init_state :: "'p loop_state" where
  "init_state = \<lparr>ci = 0, labels_count = 0, cur_row_name = None, output_col_values = []\<rparr>"

text \<open>One pass through the body of the \<^verbatim>\<open>while\<close> loop.\<close>

definition loop_body :: "'p col_value list \<Rightarrow> 'p loop_state \<Rightarrow> 'p loop_state" where
  "loop_body input_col_values s =
     (let input_col_value = input_col_values ! ci s in
      if col_order input_col_value + labels_count s \<le> int (length (output_col_values s)) then
        if Some (row_name input_col_value) \<noteq> cur_row_name s then
          s\<lparr>output_col_values := output_col_values s @ [Label (row_name input_col_value)],
            labels_count := labels_count s + 1,
            cur_row_name := Some (row_name input_col_value)\<rparr>
        else
          s\<lparr>output_col_values := output_col_values s @ [Data input_col_value],
            ci := ci s + 1\<rparr>
      else
        s\<lparr>output_col_values := output_col_values s @ [Blank]\<rparr>)"

function while_loop :: "'p col_value list \<Rightarrow> 'p loop_state \<Rightarrow> 'p loop_state" where
  "while_loop input_col_values s =
     (if ci s < length input_col_values
      then while_loop input_col_values (loop_body input_col_values s)
      else s)"
  by pat_completeness auto
termination
  by (relation "measures
        [\<lambda>(inp, s). length inp - ci s,
         \<lambda>(inp, s). nat (col_order (inp ! ci s) + labels_count s
                          - int (length (output_col_values s))),
         \<lambda>(inp, s). if Some (row_name (inp ! ci s)) \<noteq> cur_row_name s then 1 else 0]")
     (auto simp: loop_body_def Let_def)

declare while_loop.simps [simp del]

definition assemble_row :: "'p col_value list \<Rightarrow> 'p cell list" where
  "assemble_row input_col_values = output_col_values (while_loop input_col_values init_state)"

text \<open>
  The effect of the loop on one record, as a closed form: fillers up to the target index,
  a label when the row name changes, then the record itself. The loop is shown to compute
  the \<open>fold\<close> of this over the records still to be visited.
\<close>

definition place_record :: "'p col_value \<Rightarrow> 'p loop_state \<Rightarrow> 'p loop_state" where
  "place_record v s =
     (let padded = output_col_values s @
            replicate (nat (col_order v + labels_count s - int (length (output_col_values s)))) Blank
      in if Some (row_name v) \<noteq> cur_row_name s then
           s\<lparr>output_col_values := padded @ [Label (row_name v), Data v],
             labels_count := labels_count s + 1,
             cur_row_name := Some (row_name v),
             ci := ci s + 1\<rparr>
         else
           s\<lparr>output_col_values := padded @ [Data v], ci := ci s + 1\<rparr>)"

section \<open>Rendering a row (lines 99 to 138)\<close>

text \<open>
  The three \<^verbatim>\<open>for c in output_col_values\<close> loops, one cell at a time. The test
  \<^verbatim>\<open>if c:\<close> is false for \<^verbatim>\<open>None\<close> and for an empty row name, and true for every
  tuple; \<^verbatim>\<open>type(c) != tuple\<close> then tells a row name from a tuple.
\<close>

fun colors_td :: "'p cell \<Rightarrow> string" where
  "colors_td (Label c) =
     (if c \<noteq> [] then
        ''<td valign='middle' align='right' style='padding-right:5px;font-size:10px;'>'' @ c @ ''</td>''
      else ''<td style='width: 50px;'>&nbsp;</td>'')"
| "colors_td (Data c) =
     ''<td bgcolor='' @ [CHR 0x27] @ color_key (elem c) @
     '''class='border_top' style='width: 50px;'>&nbsp;</td>''"
| "colors_td Blank = ''<td style='width: 50px;'>&nbsp;</td>''"

fun name_td :: "'p cell \<Rightarrow> string" where
  "name_td (Label c) = ''<td/>''"
| "name_td (Data c) = ''<td style='font-size:8px;'>'' @ col_name c @ ''</td>''"
| "name_td Blank = ''<td/>''"

text \<open>
  \<open>values_text\<close> stands for the text built on line 134 from the floating-point fields:
  the product of nominal mass and density with two decimals, then strength and stiffness.
\<close>

fun data_td :: "('p \<Rightarrow> string) \<Rightarrow> bool \<Rightarrow> 'p cell \<Rightarrow> string" where
  "data_td values_text is_structural (Label c) = ''<td/>''"
| "data_td values_text is_structural (Data c) =
     ''<td style='font-size:8px;'>'' @
     (if is_structural then values_text (numbers (elem c)) else []) @ ''</td>''"
| "data_td values_text is_structural Blank = ''<td/>''"

text \<open>The first \<^verbatim>\<open><tr>\<close> is not closed in the source either.\<close>

definition render_row :: "('p \<Rightarrow> string) \<Rightarrow> bool \<Rightarrow> 'p cell list \<Rightarrow> string" where
  "render_row values_text is_structural row =
     ''<tr>'' @ concat (map colors_td row) @
     ''<tr>'' @ concat (map name_td row) @ ''</tr>'' @
     ''<tr>'' @ concat (map (data_td values_text is_structural) row) @ ''</tr>''"

section \<open>The whole run\<close>

text \<open>
  Lines 64 to 142, for the dictionary as left by the column sort. The keys visited are those
  of the dictionary, so the lookup always finds its row.
\<close>

definition generate_html ::
    "('p \<Rightarrow> string) \<Rightarrow> bool \<Rightarrow> (int \<times> 'p col_value list) list \<Rightarrow> string" where
  "generate_html values_text is_structural d =
     ''<html><head><title>Materials Template</title>'' @
     ''<style>tr.border_top td { border-top:1pt solid black;}</style>'' @
     ''</head><body>'' @
     ''<table style='border: 1px solid black' cellpadding=0 cellspacing='' @
     (if is_structural then ''0'' else ''1'') @ ''>'' @
     concat (map (\<lambda>k. render_row values_text is_structural
                        (assemble_row (case map_of d k of Some v \<Rightarrow> v | None \<Rightarrow> [])))
                 (sort (map fst d))) @
     ''</table>'' @ ''</body></html>''"

text \<open>
  \<^verbatim>\<open>main\<close>, as a function of what it reads: the arguments, the lines of the file at a
  path (\<open>None\<close> when it cannot be opened) and the content of
  \<^verbatim>\<open>materials_template.html\<close> before the run (\<open>None\<close> when there is no such file). It
  returns how the run ends and the content of that file after the run. \<open>json_loads\<close>
  stands for \<^verbatim>\<open>json.loads\<close> together with the field reads of the script: it gives the
  elements when the text is an array of objects that have the fields read, and an error
  otherwise. The file is opened for writing on line 144 only, after everything else.
\<close>

definition main ::
    "(string \<Rightarrow> int option) \<Rightarrow> (string \<Rightarrow> error + 'p material list) \<Rightarrow> ('p \<Rightarrow> string)
       \<Rightarrow> string list \<Rightarrow> (string \<Rightarrow> string list option) \<Rightarrow> string option
       \<Rightarrow> (error + unit) \<times> string option" where
  "main py_int json_loads values_text argv read_lines html_file =
     (if length argv \<noteq> 3 \<or> (argv ! 2 \<noteq> ''s'' \<and> argv ! 2 \<noteq> ''e'') then (Inl SystemExit, html_file)
      else case read_lines (argv ! 1) of
        None \<Rightarrow> (Inl OSError, html_file)
      | Some lines \<Rightarrow>
          (case json_loads (concat (map comment_sub lines)) of
             Inl err \<Rightarrow> (Inl err, html_file)
           | Inr data \<Rightarrow>
               (case prepare_data py_int [] data of
                  Inl err \<Rightarrow> (Inl err, html_file)
                | Inr d \<Rightarrow>
                    (Inr (), Some (generate_html values_text (argv ! 2 = ''s'') (sort_cols d))))))"

section \<open>Reading an assembled row\<close>

fun is_label :: "'p cell \<Rightarrow> bool" where
  "is_label (Label t) = True"
| "is_label c = False"

fun is_data :: "'p cell \<Rightarrow> bool" where
  "is_data (Data v) = True"
| "is_data c = False"

text \<open>The records wrapped by the data cells of a row, left to right.\<close>

fun data_records :: "'p cell list \<Rightarrow> 'p col_value list" where
  "data_records [] = []"
| "data_records (Data v # cs) = v # data_records cs"
| "data_records (c # cs) = data_records cs"

definition count_labels :: "'p cell list \<Rightarrow> nat" where
  "count_labels row = length (filter is_label row)"

text \<open>
  The number of labels the loop emits for a sequence of row names when the last label
  emitted so far is \<open>prev\<close>.
\<close>

fun label_runs :: "string option \<Rightarrow> string list \<Rightarrow> nat" where
  "label_runs prev [] = 0"
| "label_runs prev (x # xs) = (if Some x \<noteq> prev then 1 else 0) + label_runs (Some x) xs"

text \<open>The text of the last label of a row, starting from \<open>acc\<close> when there is none.\<close>

fun last_label_from :: "string option \<Rightarrow> 'p cell list \<Rightarrow> string option" where
  "last_label_from acc [] = acc"
| "last_label_from acc (Label t # cs) = last_label_from (Some t) cs"
| "last_label_from acc (c # cs) = last_label_from acc cs"

text \<open>Row invariants: where each data cell sits, and which label governs it.\<close>

definition placed_ok :: "'p cell list \<Rightarrow> bool" where
  "placed_ok row = (\<forall>p<length row. \<forall>r. row ! p = Data r \<longrightarrow>
       int p = col_order r + int (count_labels (take p row)))"

definition nearest_ok :: "'p cell list \<Rightarrow> bool" where
  "nearest_ok row = (\<forall>p<length row. \<forall>r. row ! p = Data r \<longrightarrow>
       last_label_from None (take p row) = Some (row_name r))"

text \<open>
  A cell's markup names the class \<^verbatim>\<open>border_top\<close>; a cell comes right after a label.
\<close>

definition has_border_top :: "string \<Rightarrow> bool" where
  "has_border_top markup = sublist (''class='border_top'' @ [CHR 0x27]) markup"

definition after_label :: "'p cell list \<Rightarrow> nat \<Rightarrow> bool" where
  "after_label row i = (0 < i \<and> is_label (row ! (i - 1)))"

text \<open>
  An element whose row template does not split on the bar into two parts, or whose column
  template splits into neither one part nor two.
\<close>

definition malformed :: "'p material \<Rightarrow> bool" where
  "malformed e =
     (length (split_on CHR ''|'' (template_row e)) \<noteq> 2
      \<or> (length (split_on CHR ''|'' (template_column e)) \<noteq> 1
         \<and> length (split_on CHR ''|'' (template_column e)) \<noteq> 2))"

section \<open>Example inputs\<close>

definition example_elem :: "unit material" where
  "example_elem =
     \<lparr>template_row = ''0|Iron'', template_column = ''0'', color_key = ''#404050'', numbers = ()\<rparr>"

definition example_bad_elem :: "unit material" where
  "example_bad_elem =
     \<lparr>template_row = ''0|Iron|Hull'', template_column = ''0'', color_key = ''#404050'',
      numbers = ()\<rparr>"

definition example_value :: "string \<Rightarrow> int \<Rightarrow> unit col_value" where
  "example_value name pos =
     \<lparr>row_name = name, col_order = pos, col_name = [], elem = example_elem\<rparr>"

definition example_int :: "string \<Rightarrow> int option" where
  "example_int s = (if s = ''0'' then Some 0 else if s = ''1'' then Some 1 else None)"

definition example_argv :: "string list" where
  "example_argv = [''generate_materials_template.py'', ''materials.json'', ''s'']"

section \<open>The loop as a fold over the records\<close>

lemma place_after_blank:
  assumes "int (length (output_col_values s)) < col_order v + labels_count s"
  shows "place_record v (s\<lparr>output_col_values := output_col_values s @ [Blank]\<rparr>) = place_record v s"
proof -
  have "nat (col_order v + labels_count s - int (length (output_col_values s))) =
        Suc (nat (col_order v + labels_count s - (1 + int (length (output_col_values s)))))"
    using assms by simp
  then show ?thesis
    by (simp add: place_record_def Let_def)
qed

lemma place_after_label:
  assumes "col_order v + labels_count s \<le> int (length (output_col_values s))"
    and "Some (row_name v) \<noteq> cur_row_name s"
  shows "place_record v (s\<lparr>output_col_values := output_col_values s @ [Label (row_name v)],
            labels_count := labels_count s + 1,
            cur_row_name := Some (row_name v)\<rparr>) = place_record v s"
  using assms by (simp add: place_record_def Let_def)

lemma place_data:
  assumes "col_order v + labels_count s \<le> int (length (output_col_values s))"
    and "Some (row_name v) = cur_row_name s"
  shows "s\<lparr>output_col_values := output_col_values s @ [Data v], ci := ci s + 1\<rparr> = place_record v s"
  using assms by (simp add: place_record_def Let_def)

lemma ci_place_record [simp]: "ci (place_record v s) = Suc (ci s)"
  by (simp add: place_record_def Let_def)

lemma while_loop_fold:
  "while_loop inp s = fold place_record (drop (ci s) inp) s"
proof (induction inp s rule: while_loop.induct)
  case (1 inp s)
  show ?case
  proof (cases "ci s < length inp")
    case False
    then show ?thesis by (simp add: while_loop.simps)
  next
    case True
    let ?v = "inp ! ci s"
    have dr: "drop (ci s) inp = ?v # drop (Suc (ci s)) inp"
      using True by (simp add: Cons_nth_drop_Suc)
    have unf: "while_loop inp s = while_loop inp (loop_body inp s)"
      using True by (simp add: while_loop.simps)
    note IH = 1 [OF True]
    consider (blank) "int (length (output_col_values s)) < col_order ?v + labels_count s"
      | (label) "col_order ?v + labels_count s \<le> int (length (output_col_values s))"
                "Some (row_name ?v) \<noteq> cur_row_name s"
      | (data) "col_order ?v + labels_count s \<le> int (length (output_col_values s))"
               "Some (row_name ?v) = cur_row_name s"
      by fastforce
    then show ?thesis
    proof cases
      case blank
      then have lb: "loop_body inp s = s\<lparr>output_col_values := output_col_values s @ [Blank]\<rparr>"
        by (simp add: loop_body_def Let_def)
      show ?thesis
        using IH place_after_blank [OF blank] by (simp add: unf lb dr)
    next
      case label
      then have lb: "loop_body inp s =
          s\<lparr>output_col_values := output_col_values s @ [Label (row_name ?v)],
            labels_count := labels_count s + 1,
            cur_row_name := Some (row_name ?v)\<rparr>"
        by (simp add: loop_body_def Let_def)
      show ?thesis
        using IH place_after_label [OF label] by (simp add: unf lb dr)
    next
      case data
      then have lb: "loop_body inp s = place_record ?v s"
        using place_data [OF data] by (simp add: loop_body_def Let_def)
      show ?thesis
        using IH by (simp add: unf lb dr)
    qed
  qed
qed

lemma assemble_row_fold:
  "assemble_row inp = output_col_values (fold place_record inp init_state)"
  by (simp add: assemble_row_def while_loop_fold) (simp add: init_state_def)

section \<open>Single rows worked out\<close>

text \<open>
  C1 (as the code behaves). A bucket holding one record at column position 3: the position
  test of line 88 is evaluated before the row-name test of line 89, so three fillers are
  appended first, then the label, then the record. The row is
  \<open>[Blank, Blank, Blank, Label, Data]\<close>, of length 5, with the record at physical index 4.
\<close>

theorem single_record_at_3:
  "col_order r = 3 \<Longrightarrow>
     assemble_row [r] = [Blank, Blank, Blank, Label (row_name r), Data r]
     \<and> length (assemble_row [r]) = 5
     \<and> assemble_row [r] ! 4 = Data r"
  by (simp add: assemble_row_def init_state_def while_loop.simps loop_body_def)

theorem single_record_at_3_witness:
  "col_order (example_value ''Iron'' 3) = 3
   \<and> assemble_row [example_value ''Iron'' 3] =
       [Blank, Blank, Blank, Label ''Iron'', Data (example_value ''Iron'' 3)]
   \<and> length (assemble_row [example_value ''Iron'' 3]) = 5
   \<and> assemble_row [example_value ''Iron'' 3] ! 4 = Data (example_value ''Iron'' 3)"
  using single_record_at_3 [of "example_value ''Iron'' 3"]
  by (simp add: example_value_def)

text \<open>
  C1 as the specification words it, \<open>[Label, Blank, Blank, Data]\<close> with the record at
  physical index 3, does not hold for the record named Iron at column position 3.
\<close>

theorem single_record_at_3_counterexample:
  "assemble_row [example_value ''Iron'' 3] \<noteq>
     [Label ''Iron'', Blank, Blank, Data (example_value ''Iron'' 3)]
   \<and> assemble_row [example_value ''Iron'' 3] ! 3 \<noteq> Data (example_value ''Iron'' 3)"
  by (simp add: assemble_row_def init_state_def while_loop.simps loop_body_def
        example_value_def)

text \<open>
  C2 (as the code behaves). Two records at column position 0, the first named A and the
  second named B: each record is placed right after its own label, so the row is
  \<open>[Label A, Data rec0, Label B, Data rec1]\<close> and no record is dropped.
\<close>

theorem two_labels_same_column:
  "row_name r0 = ''A'' \<Longrightarrow> col_order r0 = 0 \<Longrightarrow> row_name r1 = ''B'' \<Longrightarrow> col_order r1 = 0 \<Longrightarrow>
     assemble_row [r0, r1] = [Label ''A'', Data r0, Label ''B'', Data r1]"
  by (simp add: assemble_row_def init_state_def while_loop.simps loop_body_def)

theorem two_labels_same_column_witness:
  "row_name (example_value ''A'' 0) = ''A'' \<and> col_order (example_value ''A'' 0) = 0
   \<and> row_name (example_value ''B'' 0) = ''B'' \<and> col_order (example_value ''B'' 0) = 0
   \<and> assemble_row [example_value ''A'' 0, example_value ''B'' 0] =
       [Label ''A'', Data (example_value ''A'' 0), Label ''B'', Data (example_value ''B'' 0)]"
  using two_labels_same_column [of "example_value ''A'' 0" "example_value ''B'' 0"]
  by (simp add: example_value_def)

text \<open>
  C2 as the specification words it: the row is not \<open>[Label A, Label B, Data rec1]\<close>, and
  the first record does appear as a data cell.
\<close>

theorem two_labels_same_column_counterexample:
  "assemble_row [example_value ''A'' 0, example_value ''B'' 0] \<noteq>
     [Label ''A'', Label ''B'', Data (example_value ''B'' 0)]
   \<and> Data (example_value ''A'' 0) \<in> set (assemble_row [example_value ''A'' 0, example_value ''B'' 0])"
  by (simp add: assemble_row_def init_state_def while_loop.simps loop_body_def
        example_value_def)

section \<open>Data cells and records\<close>

lemma data_records_append [simp]: "data_records (xs @ ys) = data_records xs @ data_records ys"
  by (induction xs rule: data_records.induct) simp_all

lemma data_records_replicate_Blank [simp]: "data_records (replicate n Blank) = []"
  by (induction n) simp_all

lemma data_records_filter: "length (data_records row) = length (filter is_data row)"
  by (induction row rule: data_records.induct) simp_all

lemma data_records_place:
  "data_records (output_col_values (place_record v s)) = data_records (output_col_values s) @ [v]"
  by (simp add: place_record_def Let_def)

lemma data_records_fold:
  "data_records (output_col_values (fold place_record rs s)) = data_records (output_col_values s) @ rs"
  by (induction rs arbitrary: s) (simp_all add: data_records_place)

text \<open>
  C3. The data cells of the assembled row are as many as the records of the bucket, and the
  records they wrap, read left to right, are the bucket's records in the bucket's order.
\<close>

theorem data_cells_are_the_records:
  "data_records (assemble_row inp) = inp \<and> length (filter is_data (assemble_row inp)) = length inp"
  using data_records_fold [of inp init_state] data_records_filter [of "assemble_row inp"]
  by (simp add: assemble_row_fold init_state_def)

theorem data_cells_are_the_records_witness:
  "data_records (assemble_row [example_value ''A'' 0, example_value ''B'' 0]) =
     [example_value ''A'' 0, example_value ''B'' 0]
   \<and> length (filter is_data (assemble_row [example_value ''A'' 0, example_value ''B'' 0])) = 2"
  using data_cells_are_the_records [of "[example_value ''A'' 0, example_value ''B'' 0]"]
  by simp

section \<open>Label cells and runs of row names\<close>

lemma count_labels_append [simp]: "count_labels (xs @ ys) = count_labels xs + count_labels ys"
  by (simp add: count_labels_def)

lemma count_labels_replicate_Blank [simp]: "count_labels (replicate n Blank) = 0"
  by (induction n) (simp_all add: count_labels_def)

lemma count_labels_simps [simp]:
  "count_labels [] = 0"
  "count_labels (Label t # cs) = Suc (count_labels cs)"
  "count_labels (Data v # cs) = count_labels cs"
  "count_labels (Blank # cs) = count_labels cs"
  by (simp_all add: count_labels_def)

lemma count_labels_place:
  "count_labels (output_col_values (place_record v s)) =
     count_labels (output_col_values s) + (if Some (row_name v) \<noteq> cur_row_name s then 1 else 0)"
  by (simp add: place_record_def Let_def)

lemma cur_row_name_place [simp]: "cur_row_name (place_record v s) = Some (row_name v)"
  by (auto simp add: place_record_def Let_def)

lemma count_labels_fold:
  "count_labels (output_col_values (fold place_record rs s)) =
     count_labels (output_col_values s) + label_runs (cur_row_name s) (map row_name rs)"
  by (induction rs arbitrary: s) (simp_all add: count_labels_place)

lemma label_runs_Some: "Suc (label_runs (Some y) xs) = length (remdups_adj (y # xs))"
  by (induction xs arbitrary: y) auto

lemma label_runs_None: "label_runs None xs = length (remdups_adj xs)"
  by (cases xs) (simp_all add: label_runs_Some)

text \<open>
  C4. The label cells of the assembled row are as many as the maximal runs of consecutive
  records with equal row name: \<open>remdups_adj\<close> keeps one name per such run, so a name that
  comes back after another one counts again.
\<close>

theorem label_cells_count_runs:
  "count_labels (assemble_row inp) = length (remdups_adj (map row_name inp))"
  using count_labels_fold [of inp init_state]
  by (simp add: assemble_row_fold label_runs_None init_state_def)

theorem label_cells_count_runs_witness:
  "count_labels (assemble_row [example_value ''A'' 0, example_value ''A'' 1,
      example_value ''B'' 2, example_value ''A'' 3]) = 3
   \<and> length (remdups_adj (map row_name [example_value ''A'' 0, example_value ''A'' 1,
      example_value ''B'' 2, example_value ''A'' 3])) = 3"
  using label_cells_count_runs [of "[example_value ''A'' 0, example_value ''A'' 1,
      example_value ''B'' 2, example_value ''A'' 3]"]
  by (simp add: example_value_def)

section \<open>Physical index of a data cell\<close>

lemma placed_ok_Nil [simp]: "placed_ok []"
  by (simp add: placed_ok_def)

lemma placed_ok_snoc:
  "placed_ok (xs @ [c]) \<longleftrightarrow>
     placed_ok xs \<and> (\<forall>r. c = Data r \<longrightarrow> int (length xs) = col_order r + int (count_labels xs))"
  by (auto simp add: placed_ok_def less_Suc_eq nth_append)

lemma placed_ok_pad: "placed_ok (xs @ replicate n Blank) \<longleftrightarrow> placed_ok xs"
proof (induction n)
  case 0
  then show ?case by simp
next
  case (Suc n)
  have "xs @ replicate (Suc n) Blank = (xs @ replicate n Blank) @ [Blank]"
    by (simp add: replicate_append_same)
  then show ?case using Suc by (simp only: placed_ok_snoc) simp
qed

lemma labels_count_place:
  "labels_count (place_record v s) =
     labels_count s + (if Some (row_name v) \<noteq> cur_row_name s then 1 else 0)"
  by (simp add: place_record_def Let_def)

lemma length_place:
  assumes "int (length (output_col_values s)) \<le> col_order v + labels_count s"
  shows "int (length (output_col_values (place_record v s))) =
           col_order v + labels_count (place_record v s) + 1"
  using assms by (simp add: place_record_def Let_def)

lemma placed_ok_place:
  assumes "int (length (output_col_values s)) \<le> col_order v + labels_count s"
    and "labels_count s = int (count_labels (output_col_values s))"
    and "placed_ok (output_col_values s)"
  shows "placed_ok (output_col_values (place_record v s))"
proof -
  define pad where "pad = output_col_values s @
      replicate (nat (col_order v + labels_count s - int (length (output_col_values s)))) Blank"
  have len: "int (length pad) = col_order v + labels_count s"
    using assms(1) by (simp add: pad_def)
  have cnt: "count_labels pad = count_labels (output_col_values s)"
    by (simp add: pad_def)
  have ok: "placed_ok pad"
    using assms(3) by (simp only: pad_def placed_ok_pad)
  show ?thesis
  proof (cases "Some (row_name v) \<noteq> cur_row_name s")
    case True
    then have out: "output_col_values (place_record v s) = (pad @ [Label (row_name v)]) @ [Data v]"
      by (simp add: place_record_def Let_def pad_def)
    have "placed_ok (pad @ [Label (row_name v)])"
      using ok by (simp add: placed_ok_snoc)
    moreover have "int (length (pad @ [Label (row_name v)])) =
        col_order v + int (count_labels (pad @ [Label (row_name v)]))"
      using len assms(2) by (simp add: cnt)
    ultimately show ?thesis
      unfolding out by (subst placed_ok_snoc) blast
  next
    case False
    then have out: "output_col_values (place_record v s) = pad @ [Data v]"
      by (simp add: place_record_def Let_def pad_def)
    have "int (length pad) = col_order v + int (count_labels pad)"
      using len assms(2) by (simp only: cnt)
    then show ?thesis
      unfolding out using ok by (subst placed_ok_snoc) blast
  qed
qed

lemma placed_ok_fold:
  assumes "sorted_wrt (<) (map col_order rs)"
    and "\<forall>v\<in>set rs. int (length (output_col_values s)) \<le> col_order v + labels_count s"
    and "labels_count s = int (count_labels (output_col_values s))"
    and "placed_ok (output_col_values s)"
  shows "placed_ok (output_col_values (fold place_record rs s))"
  using assms
proof (induction rs arbitrary: s)
  case Nil
  then show ?case by simp
next
  case (Cons v rs)
  have le: "int (length (output_col_values s)) \<le> col_order v + labels_count s"
    using Cons.prems(2) by simp
  have 1: "sorted_wrt (<) (map col_order rs)"
    using Cons.prems(1) by simp
  have 2: "\<forall>w\<in>set rs. int (length (output_col_values (place_record v s)))
              \<le> col_order w + labels_count (place_record v s)"
  proof
    fix w assume "w \<in> set rs"
    then have "col_order v < col_order w" using Cons.prems(1) by simp
    then show "int (length (output_col_values (place_record v s)))
              \<le> col_order w + labels_count (place_record v s)"
      using length_place [OF le] by simp
  qed
  have 3: "labels_count (place_record v s) = int (count_labels (output_col_values (place_record v s)))"
    using Cons.prems(3) by (simp add: labels_count_place count_labels_place)
  have 4: "placed_ok (output_col_values (place_record v s))"
    using placed_ok_place [OF le Cons.prems(3) Cons.prems(4)] .
  show ?case
    using Cons.IH [OF 1 2 3 4] by simp
qed

text \<open>
  C5 (as the code behaves). When the column positions of the bucket are non-negative and
  strictly increasing, every data cell sits at the physical index that is its record's
  column position plus the number of label cells to its left.
\<close>

theorem data_cell_index:
  assumes "sorted_wrt (<) (map col_order inp)"
    and "\<forall>v\<in>set inp. 0 \<le> col_order v"
    and "p < length (assemble_row inp)"
    and "assemble_row inp ! p = Data r"
  shows "int p = col_order r + int (count_labels (take p (assemble_row inp)))"
proof -
  have "placed_ok (output_col_values (fold place_record inp init_state))"
    using assms(1,2) by (intro placed_ok_fold) (simp_all add: init_state_def)
  then show ?thesis
    using assms(3,4) by (simp add: assemble_row_fold placed_ok_def)
qed

theorem data_cell_index_witness:
  "sorted_wrt (<) (map col_order [example_value ''A'' 0, example_value ''A'' 2, example_value ''B'' 4])
   \<and> 0 \<le> col_order (example_value ''A'' 0) \<and> 0 \<le> col_order (example_value ''A'' 2)
   \<and> 0 \<le> col_order (example_value ''B'' 4)
   \<and> 6 < length (assemble_row [example_value ''A'' 0, example_value ''A'' 2, example_value ''B'' 4])
   \<and> assemble_row [example_value ''A'' 0, example_value ''A'' 2, example_value ''B'' 4] ! 6
       = Data (example_value ''B'' 4)
   \<and> int 6 = col_order (example_value ''B'' 4)
       + int (count_labels (take 6
           (assemble_row [example_value ''A'' 0, example_value ''A'' 2, example_value ''B'' 4])))"
proof -
  let ?inp = "[example_value ''A'' 0, example_value ''A'' 2, example_value ''B'' 4]"
  have row: "assemble_row ?inp =
      [Label ''A'', Data (example_value ''A'' 0), Blank, Data (example_value ''A'' 2),
       Blank, Label ''B'', Data (example_value ''B'' 4)]"
    by (simp add: assemble_row_fold init_state_def place_record_def example_value_def)
  have h1: "sorted_wrt (<) (map col_order ?inp)"
    by (simp add: example_value_def)
  have h2: "\<forall>v\<in>set ?inp. 0 \<le> col_order v"
    by (simp add: example_value_def)
  have h3: "6 < length (assemble_row ?inp)"
    by (simp add: row)
  have h4: "assemble_row ?inp ! 6 = Data (example_value ''B'' 4)"
    by (simp add: row)
  show ?thesis
    using h1 h2 h3 h4 data_cell_index [OF h1 h2 h3 h4] by simp
qed

text \<open>
  C5 as the specification words it, for every bucket: two records named A both at column
  position 0 give \<open>[Label A, Data, Data]\<close>; the second data cell is at physical index 2,
  while its column position plus the one label before it is 1.
\<close>

theorem data_cell_index_counterexample:
  "2 < length (assemble_row [example_value ''A'' 0, example_value ''A'' 0])
   \<and> assemble_row [example_value ''A'' 0, example_value ''A'' 0] ! 2 = Data (example_value ''A'' 0)
   \<and> int 2 \<noteq> col_order (example_value ''A'' 0)
       + int (count_labels (take 2 (assemble_row [example_value ''A'' 0, example_value ''A'' 0])))"
  by (simp add: assemble_row_fold init_state_def place_record_def example_value_def)

section \<open>The first cell and the nearest label\<close>

lemma last_label_from_append [simp]:
  "last_label_from acc (xs @ ys) = last_label_from (last_label_from acc xs) ys"
  by (induction acc xs rule: last_label_from.induct) simp_all

lemma last_label_from_replicate_Blank [simp]:
  "last_label_from acc (replicate n Blank) = acc"
  by (induction n) simp_all

lemma last_label_from_nearest:
  "last_label_from None xs = Some t \<Longrightarrow>
     \<exists>q<length xs. xs ! q = Label t \<and> (\<forall>k. q < k \<and> k < length xs \<longrightarrow> \<not> is_label (xs ! k))"
proof (induction xs rule: rev_induct)
  case Nil
  then show ?case by simp
next
  case (snoc c xs)
  show ?case
  proof (cases "is_label c")
    case True
    then obtain u where c: "c = Label u" by (cases c) simp_all
    with snoc.prems have "u = t" by simp
    with c have "(xs @ [c]) ! length xs = Label t" by simp
    then show ?thesis
      by (intro exI [of _ "length xs"]) auto
  next
    case False
    then have "last_label_from None xs = Some t"
      using snoc.prems by (cases c) simp_all
    from snoc.IH [OF this] obtain q where q: "q < length xs" "xs ! q = Label t"
      "\<forall>k. q < k \<and> k < length xs \<longrightarrow> \<not> is_label (xs ! k)" by blast
    have "\<forall>k. q < k \<and> k < length (xs @ [c]) \<longrightarrow> \<not> is_label ((xs @ [c]) ! k)"
      using q(3) False by (auto simp add: nth_append less_Suc_eq)
    with q(1,2) show ?thesis
      by (intro exI [of _ q]) (simp add: nth_append)
  qed
qed

lemma nearest_ok_Nil [simp]: "nearest_ok []"
  by (simp add: nearest_ok_def)

lemma nearest_ok_snoc:
  "nearest_ok (xs @ [c]) \<longleftrightarrow>
     nearest_ok xs \<and> (\<forall>r. c = Data r \<longrightarrow> last_label_from None xs = Some (row_name r))"
  by (auto simp add: nearest_ok_def less_Suc_eq nth_append)

lemma nearest_ok_pad: "nearest_ok (xs @ replicate n Blank) \<longleftrightarrow> nearest_ok xs"
proof (induction n)
  case 0
  then show ?case by simp
next
  case (Suc n)
  have "xs @ replicate (Suc n) Blank = (xs @ replicate n Blank) @ [Blank]"
    by (simp add: replicate_append_same)
  then show ?case using Suc by (simp only: nearest_ok_snoc) simp
qed

lemma last_label_place:
  assumes "cur_row_name s = last_label_from None (output_col_values s)"
  shows "last_label_from None (output_col_values (place_record v s)) = Some (row_name v)"
  using assms by (simp add: place_record_def Let_def)

lemma nearest_ok_place:
  assumes "cur_row_name s = last_label_from None (output_col_values s)"
    and "nearest_ok (output_col_values s)"
  shows "nearest_ok (output_col_values (place_record v s))"
proof -
  define pad where "pad = output_col_values s @
      replicate (nat (col_order v + labels_count s - int (length (output_col_values s)))) Blank"
  have ok: "nearest_ok pad"
    using assms(2) by (simp only: pad_def nearest_ok_pad)
  have ll: "last_label_from None pad = cur_row_name s"
    using assms(1) by (simp add: pad_def)
  show ?thesis
  proof (cases "Some (row_name v) \<noteq> cur_row_name s")
    case True
    then have out: "output_col_values (place_record v s) = (pad @ [Label (row_name v)]) @ [Data v]"
      by (simp add: place_record_def Let_def pad_def)
    have "nearest_ok (pad @ [Label (row_name v)])"
      using ok by (simp add: nearest_ok_snoc)
    moreover have "last_label_from None (pad @ [Label (row_name v)]) = Some (row_name v)"
      by simp
    ultimately show ?thesis
      unfolding out by (subst nearest_ok_snoc) blast
  next
    case False
    then have out: "output_col_values (place_record v s) = pad @ [Data v]"
      by (simp add: place_record_def Let_def pad_def)
    have "last_label_from None pad = Some (row_name v)"
      using False ll by simp
    then show ?thesis
      unfolding out using ok by (subst nearest_ok_snoc) blast
  qed
qed

lemma nearest_ok_fold:
  assumes "cur_row_name s = last_label_from None (output_col_values s)"
    and "nearest_ok (output_col_values s)"
  shows "nearest_ok (output_col_values (fold place_record rs s))"
  using assms
proof (induction rs arbitrary: s)
  case Nil
  then show ?case by simp
next
  case (Cons v rs)
  have "cur_row_name (place_record v s) = last_label_from None (output_col_values (place_record v s))"
    using last_label_place [OF Cons.prems(1)] by simp
  moreover have "nearest_ok (output_col_values (place_record v s))"
    using nearest_ok_place [OF Cons.prems] .
  ultimately show ?case
    using Cons.IH by simp
qed

lemma place_extends:
  "\<exists>zs. output_col_values (place_record v s) = output_col_values s @ zs"
  by (simp add: place_record_def Let_def)

lemma fold_place_extends:
  "\<exists>ys. output_col_values (fold place_record rs s) = output_col_values s @ ys"
proof (induction rs arbitrary: s)
  case Nil
  then show ?case by simp
next
  case (Cons v rs)
  obtain zs where zs: "output_col_values (place_record v s) = output_col_values s @ zs"
    using place_extends by blast
  from Cons.IH [of "place_record v s"] obtain ys where
    "output_col_values (fold place_record rs (place_record v s)) =
       output_col_values (place_record v s) @ ys" by blast
  then show ?case using zs by simp
qed

lemma first_place_init:
  "output_col_values (place_record v init_state) =
     replicate (nat (col_order v)) Blank @ [Label (row_name v), Data v]"
  by (simp add: place_record_def init_state_def)

lemma hd_first_place:
  "hd (output_col_values (place_record v init_state) @ ys) =
     (if 0 < col_order v then Blank else Label (row_name v))"
proof (cases "0 < col_order v")
  case True
  then obtain n where "nat (col_order v) = Suc n"
    by (cases "nat (col_order v)") simp_all
  then show ?thesis using True by (simp add: first_place_init)
next
  case False
  then show ?thesis by (simp add: first_place_init)
qed

text \<open>
  C10. For a non-empty bucket the first cell of the row is not a data cell: it is the label
  of the first record when that record's column position is at most 0, and a filler
  otherwise. Every data cell has a label cell to its left, and the nearest one carries the
  row name of the record in the data cell.
\<close>

theorem first_cell_and_nearest_label:
  assumes "inp \<noteq> []"
  shows "assemble_row inp \<noteq> []
     \<and> \<not> is_data (hd (assemble_row inp))
     \<and> (col_order (hd inp) \<le> 0 \<longrightarrow> hd (assemble_row inp) = Label (row_name (hd inp)))
     \<and> (0 < col_order (hd inp) \<longrightarrow> hd (assemble_row inp) = Blank)
     \<and> (\<forall>p<length (assemble_row inp). \<forall>r. assemble_row inp ! p = Data r \<longrightarrow>
          (\<exists>q<p. assemble_row inp ! q = Label (row_name r)
              \<and> (\<forall>k. q < k \<and> k < p \<longrightarrow> \<not> is_label (assemble_row inp ! k))))"
proof -
  obtain v rs where inp: "inp = v # rs"
    using assms by (cases inp) simp_all
  obtain ys where ys: "assemble_row inp = output_col_values (place_record v init_state) @ ys"
    using fold_place_extends [of rs "place_record v init_state"]
    by (auto simp add: assemble_row_fold inp)
  have hd: "hd (assemble_row inp) = (if 0 < col_order v then Blank else Label (row_name v))"
    unfolding ys by (rule hd_first_place)
  have ne: "assemble_row inp \<noteq> []"
    unfolding ys by (simp add: first_place_init)
  have "nearest_ok (output_col_values (fold place_record inp init_state))"
    by (rule nearest_ok_fold) (simp_all add: init_state_def)
  then have near: "nearest_ok (assemble_row inp)"
    by (simp add: assemble_row_fold)
  have "\<exists>q<p. assemble_row inp ! q = Label (row_name r)
              \<and> (\<forall>k. q < k \<and> k < p \<longrightarrow> \<not> is_label (assemble_row inp ! k))"
    if p: "p < length (assemble_row inp)" and d: "assemble_row inp ! p = Data r" for p r
  proof -
    have "last_label_from None (take p (assemble_row inp)) = Some (row_name r)"
      using near p d by (simp add: nearest_ok_def)
    from last_label_from_nearest [OF this] p show ?thesis
      by (auto simp add: min_def)
  qed
  with hd ne show ?thesis
    by (auto simp add: inp)
qed

theorem first_cell_and_nearest_label_witness:
  "[example_value ''A'' 0] \<noteq> []
   \<and> col_order (hd [example_value ''A'' 0]) \<le> 0
   \<and> hd (assemble_row [example_value ''A'' 0]) = Label ''A''
   \<and> 1 < length (assemble_row [example_value ''A'' 0])
   \<and> assemble_row [example_value ''A'' 0] ! 1 = Data (example_value ''A'' 0)
   \<and> assemble_row [example_value ''A'' 0] ! 0 = Label (row_name (example_value ''A'' 0))
   \<and> [example_value ''A'' 2] \<noteq> []
   \<and> 0 < col_order (hd [example_value ''A'' 2])
   \<and> hd (assemble_row [example_value ''A'' 2]) = Blank"
proof -
  have n0: "[example_value ''A'' 0] \<noteq> []" and n2: "[example_value ''A'' 2] \<noteq> []"
    by simp_all
  have c0: "col_order (hd [example_value ''A'' 0]) \<le> 0"
    and c2: "0 < col_order (hd [example_value ''A'' 2])"
    by (simp_all add: example_value_def)
  have row: "assemble_row [example_value ''A'' 0] = [Label ''A'', Data (example_value ''A'' 0)]"
    by (simp add: assemble_row_def init_state_def while_loop.simps loop_body_def
          example_value_def)
  from first_cell_and_nearest_label [OF n0] c0
  have a: "hd (assemble_row [example_value ''A'' 0]) = Label (row_name (hd [example_value ''A'' 0]))"
    by blast
  from first_cell_and_nearest_label [OF n2] c2
  have b: "hd (assemble_row [example_value ''A'' 2]) = Blank"
    by blast
  from a b c0 c2 show ?thesis
    by (simp add: row)
qed

section \<open>Termination of the loop\<close>

lemma loop_body_progress:
  "length (output_col_values (loop_body inp s)) = Suc (length (output_col_values s))
   \<and> (ci (loop_body inp s) = ci s \<or> ci (loop_body inp s) = ci s + 1)"
  by (simp add: loop_body_def Let_def)

lemma while_loop_iterates:
  "ci s \<le> length inp \<Longrightarrow>
     \<exists>n. (\<forall>m<n. ci ((loop_body inp ^^ m) s) < length inp)
        \<and> (loop_body inp ^^ n) s = while_loop inp s
        \<and> ci (while_loop inp s) = length inp"
proof (induction inp s rule: while_loop.induct)
  case (1 inp s)
  show ?case
  proof (cases "ci s < length inp")
    case False
    with "1.prems" have "ci s = length inp" by simp
    with False show ?thesis
      by (intro exI [of _ 0]) (simp add: while_loop.simps)
  next
    case True
    have unf: "while_loop inp s = while_loop inp (loop_body inp s)"
      using True by (simp add: while_loop.simps)
    have "ci (loop_body inp s) \<le> length inp"
      using True loop_body_progress [of inp s] by auto
    from "1.IH" [OF True this] obtain n where
      n: "\<forall>m<n. ci ((loop_body inp ^^ m) (loop_body inp s)) < length inp"
         "(loop_body inp ^^ n) (loop_body inp s) = while_loop inp (loop_body inp s)"
         "ci (while_loop inp (loop_body inp s)) = length inp"
      by blast
    have "\<forall>m<Suc n. ci ((loop_body inp ^^ m) s) < length inp"
    proof (intro allI impI)
      fix m assume "m < Suc n"
      then show "ci ((loop_body inp ^^ m) s) < length inp"
        using True n(1) by (cases m) (simp_all add: funpow_swap1)
    qed
    moreover have "(loop_body inp ^^ Suc n) s = while_loop inp s"
      using n(2) by (simp add: funpow_swap1 unf)
    moreover have "ci (while_loop inp s) = length inp"
      using n(3) by (simp add: unf)
    ultimately show ?thesis by blast
  qed
qed

text \<open>
  C6. For every list of records: a pass through the loop body, taken while the loop
  condition holds, advances the cursor or makes the output longer; and some number \<open>n\<close>
  of passes from the initial state, the loop condition holding before each of them, reaches
  a state whose cursor is the length of the list, which is the state the loop returns. No
  ordering of the column positions is assumed.
\<close>

theorem assembly_terminates:
  "(\<forall>s. ci s < length inp \<longrightarrow>
        ci (loop_body inp s) = ci s + 1
      \<or> length (output_col_values s) < length (output_col_values (loop_body inp s)))
   \<and> (\<exists>n. (\<forall>m<n. ci ((loop_body inp ^^ m) init_state) < length inp)
          \<and> while_loop inp init_state = (loop_body inp ^^ n) init_state
          \<and> ci (while_loop inp init_state) = length inp)"
proof -
  have "ci (init_state :: 'a loop_state) \<le> length inp"
    by (simp add: init_state_def)
  from while_loop_iterates [OF this] show ?thesis
    using loop_body_progress [of inp] by (metis lessI)
qed

theorem assembly_terminates_witness:
  "ci (init_state :: unit loop_state) < length [example_value ''A'' 1]
   \<and> (ci (loop_body [example_value ''A'' 1] init_state) = ci (init_state :: unit loop_state) + 1
      \<or> length (output_col_values (init_state :: unit loop_state))
          < length (output_col_values (loop_body [example_value ''A'' 1] init_state)))
   \<and> ci (while_loop [example_value ''A'' 1] init_state) = length [example_value ''A'' 1]"
proof -
  have h: "ci (init_state :: unit loop_state) < length [example_value ''A'' 1]"
    by (simp add: init_state_def)
  from assembly_terminates [of "[example_value ''A'' 1]"] h show ?thesis
    by blast
qed

section \<open>The colour sub-row\<close>

lemma has_border_top_Data: "has_border_top (colors_td (Data c))"
  unfolding has_border_top_def sublist_def
  by (intro exI [of _ "''<td bgcolor='' @ [CHR 0x27] @ color_key (elem c) @ [CHR 0x27]"]
        exI [of _ "'' style='width: 50px;'>&nbsp;</td>''"]) simp

text \<open>
  C9 (as the code behaves). In the colour sub-row the markup of every data cell is the
  background fill from the colour key followed by the class \<^verbatim>\<open>border_top\<close>, wherever the
  cell stands in the row: line 109 has no test on the cell before it.
\<close>

theorem data_cell_markup:
  "i < length row \<Longrightarrow> row ! i = Data c \<Longrightarrow>
     colors_td (row ! i) =
       ''<td bgcolor='' @ [CHR 0x27] @ color_key (elem c) @
       '''class='border_top' style='width: 50px;'>&nbsp;</td>''
     \<and> has_border_top (colors_td (row ! i))"
  using has_border_top_Data [of c] by simp

theorem data_cell_markup_witness:
  "1 < length (assemble_row [example_value ''A'' 0])
   \<and> assemble_row [example_value ''A'' 0] ! 1 = Data (example_value ''A'' 0)
   \<and> has_border_top (colors_td (assemble_row [example_value ''A'' 0] ! 1))"
proof -
  have row: "assemble_row [example_value ''A'' 0] = [Label ''A'', Data (example_value ''A'' 0)]"
    by (simp add: assemble_row_fold init_state_def place_record_def example_value_def)
  have h1: "1 < length (assemble_row [example_value ''A'' 0])"
    and h2: "assemble_row [example_value ''A'' 0] ! 1 = Data (example_value ''A'' 0)"
    by (simp_all add: row)
  from data_cell_markup [OF h1 h2] h1 h2 show ?thesis by blast
qed

text \<open>
  C9 as the specification words it: in the row \<open>[Label A, Data, Data]\<close> of two records
  named A at column positions 0 and 1, the cell at index 2 is a data cell that does not
  come right after a label, and its markup carries the class all the same.
\<close>

theorem data_cell_markup_counterexample:
  "is_data (assemble_row [example_value ''A'' 0, example_value ''A'' 1] ! 2)
   \<and> \<not> after_label (assemble_row [example_value ''A'' 0, example_value ''A'' 1]) 2
   \<and> has_border_top (colors_td (assemble_row [example_value ''A'' 0, example_value ''A'' 1] ! 2))"
proof -
  have row: "assemble_row [example_value ''A'' 0, example_value ''A'' 1] =
      [Label ''A'', Data (example_value ''A'' 0), Data (example_value ''A'' 1)]"
    by (simp add: assemble_row_fold init_state_def place_record_def example_value_def)
  have cell: "assemble_row [example_value ''A'' 0, example_value ''A'' 1] ! 2 =
      Data (example_value ''A'' 1)"
    by (simp add: row)
  have "is_data (assemble_row [example_value ''A'' 0, example_value ''A'' 1] ! 2)"
    by (simp add: cell)
  moreover have "\<not> after_label (assemble_row [example_value ''A'' 0, example_value ''A'' 1]) 2"
    by (simp add: row after_label_def)
  moreover have "has_border_top
      (colors_td (assemble_row [example_value ''A'' 0, example_value ''A'' 1] ! 2))"
    by (simp only: cell has_border_top_Data)
  ultimately show ?thesis by blast
qed

section \<open>Comment stripping\<close>

text \<open>
  The usual case: a line whose first \<^verbatim>\<open>//\<close> is followed by at least one character
  before the newline loses everything from the marker up to the newline.
\<close>

lemma match_comment_strips:
  assumes "newline \<notin> set body" and "body \<noteq> []"
  shows "match_comment (''//'' @ body @ [newline]) = Some [newline]"
  using assms by (simp add: match_comment_def at_dollar_def takeWhile_append dropWhile_append Let_def
      takeWhile_eq_all_conv dropWhile_eq_Nil_conv)

lemma comment_match_strips:
  assumes "newline \<notin> set pre" and "newline \<notin> set body" and "body \<noteq> []"
    and "\<not> sublist ''//'' (pre @ ''/'')"
  shows "comment_match (pre @ ''//'' @ body @ [newline]) = Some (pre @ [newline])"
  using assms
proof (induction pre)
  case Nil
  then show ?case
    using match_comment_strips [of body] by simp
next
  case (Cons c pre)
  have nl: "c \<noteq> newline" and nl': "newline \<notin> set pre"
    using Cons.prems(1) by auto
  have ns: "\<not> sublist ''//'' (pre @ ''/'')"
    using Cons.prems(4) by (auto simp add: sublist_Cons_right)
  have np: "\<not> prefix ''//'' (c # pre @ ''/'')"
    using Cons.prems(4) by (auto simp add: sublist_Cons_right)
  have tk: "take 2 (c # pre @ ''//'' @ body @ [newline]) \<noteq> ''//''"
    using np by (cases pre) (auto simp add: prefix_def)
  have mc: "match_comment (c # pre @ ''//'' @ body @ [newline]) = None"
    unfolding match_comment_def by (simp only: tk if_False)
  have ad: "\<not> at_dollar (c # pre @ ''//'' @ body @ [newline])"
    by (simp add: at_dollar_def)
  show ?case
    using Cons.IH [OF nl' Cons.prems(2,3) ns] mc ad nl by simp
qed

lemma comment_sub_strips:
  assumes "newline \<notin> set pre" and "newline \<notin> set body" and "body \<noteq> []"
    and "\<not> sublist ''//'' (pre @ ''/'')"
  shows "comment_sub (pre @ ''//'' @ body @ [newline]) = pre @ [newline]"
  using comment_match_strips [OF assms] by (simp add: comment_sub_def)

text \<open>
  C7 at a line that ends with the bare marker. The group \<open>(//.+)\<close> needs a character after
  the two slashes, so on the line \<^verbatim>\<open>[1, 2, //\<close> the optional group matches nothing, the
  lazy group takes the whole line and the substitution returns it unchanged, marker
  included.
\<close>

theorem bare_marker_is_kept:
  "comment_sub (''[1, 2, //'' @ [newline]) = ''[1, 2, //'' @ [newline]"
  by (simp add: comment_sub_def match_comment_def at_dollar_def newline_def)

section \<open>Malformed templates\<close>

lemma parse_elem_malformed:
  "malformed e \<Longrightarrow> parse_elem py_int e = Inl AssertionError \<or> parse_elem py_int e = Inl ValueError"
  by (auto simp add: malformed_def parse_elem_def Let_def split: option.splits)

lemma parse_elem_error:
  "parse_elem py_int e = Inl err \<Longrightarrow> err = AssertionError \<or> err = ValueError"
  by (auto simp add: parse_elem_def Let_def split: option.splits if_splits)

lemma prepare_data_malformed:
  "\<exists>e\<in>set data. malformed e \<Longrightarrow>
     prepare_data py_int d data = Inl AssertionError \<or> prepare_data py_int d data = Inl ValueError"
proof (induction data arbitrary: d)
  case Nil
  then show ?case by simp
next
  case (Cons e data)
  show ?case
  proof (cases "parse_elem py_int e")
    case (Inl err)
    then show ?thesis using parse_elem_error [OF Inl] by auto
  next
    case (Inr kv)
    then have "\<not> malformed e"
      using parse_elem_malformed [of e py_int] by auto
    with Cons.prems have "\<exists>e\<in>set data. malformed e" by simp
    from Cons.IH [OF this] show ?thesis
      using Inr by (cases kv) simp
  qed
qed

text \<open>A run whose data is prepared without error does write the file.\<close>

lemma main_writes_on_success:
  assumes "length argv = 3" and "argv ! 2 = ''s'' \<or> argv ! 2 = ''e''"
    and "read_lines (argv ! 1) = Some lines"
    and "json_loads (concat (map comment_sub lines)) = Inr data"
    and "prepare_data py_int [] data = Inr d"
  shows "main py_int json_loads values_text argv read_lines html_file =
           (Inr (), Some (generate_html values_text (argv ! 2 = ''s'') (sort_cols d)))"
  using assms by (auto simp add: main_def)

text \<open>
  C8. In a run that gets as far as the elements of the document, if some element has a row
  template that does not split on the bar into exactly two parts, or a column template
  that splits into neither one part nor two, the run ends in an error raised while the
  data is prepared (the failing \<^verbatim>\<open>assert\<close>, or the \<^verbatim>\<open>ValueError\<close> of an earlier
  \<^verbatim>\<open>int()\<close>), before anything is rendered, and the output file is what it was before.
\<close>

theorem malformed_template_aborts:
  assumes "length argv = 3" and "argv ! 2 = ''s'' \<or> argv ! 2 = ''e''"
    and "read_lines (argv ! 1) = Some lines"
    and "json_loads (concat (map comment_sub lines)) = Inr data"
    and "\<exists>e\<in>set data. malformed e"
  shows "main py_int json_loads values_text argv read_lines html_file = (Inl AssertionError, html_file)
       \<or> main py_int json_loads values_text argv read_lines html_file = (Inl ValueError, html_file)"
  using assms(1-4) prepare_data_malformed [OF assms(5), of py_int "[]"]
  by (auto simp add: main_def)

theorem malformed_template_aborts_witness:
  "length example_argv = 3
   \<and> (example_argv ! 2 = ''s'' \<or> example_argv ! 2 = ''e'')
   \<and> malformed example_bad_elem
   \<and> main example_int (\<lambda>text. Inr [example_elem, example_bad_elem]) (\<lambda>p. [])
        example_argv (\<lambda>path. Some [''[]'']) (Some ''previous run'')
      = (Inl AssertionError, Some ''previous run'')"
proof -
  have h1: "length example_argv = 3"
    and h2: "example_argv ! 2 = ''s'' \<or> example_argv ! 2 = ''e''"
    by (simp_all add: example_argv_def)
  have h3: "(\<lambda>path. Some [''[]'']) (example_argv ! 1) = Some [''[]'']"
    by simp
  have h4: "(\<lambda>text. Inr [example_elem, example_bad_elem]) (concat (map comment_sub [''[]'']))
      = (Inr [example_elem, example_bad_elem] :: error + unit material list)"
    by simp
  have bad: "malformed example_bad_elem"
    by (simp add: malformed_def example_bad_elem_def)
  then have h5: "\<exists>e\<in>set [example_elem, example_bad_elem]. malformed e"
    by simp
  have nv: "main example_int (\<lambda>text. Inr [example_elem, example_bad_elem]) (\<lambda>p. [])
        example_argv (\<lambda>path. Some [''[]'']) (Some ''previous run'')
      \<noteq> (Inl ValueError, Some ''previous run'')"
    by (simp add: main_def example_argv_def parse_elem_def example_elem_def example_bad_elem_def
          example_int_def setdefault_append_def)
  from malformed_template_aborts [of example_argv "\<lambda>path. Some [''[]'']" "[''[]'']"
      "\<lambda>text. Inr [example_elem, example_bad_elem]" "[example_elem, example_bad_elem]"
      example_int "\<lambda>p. []" "Some ''previous run''", OF h1 h2 h3 h4 h5] nv h1 h2 bad
  show ?thesis by blast
qed

end
